theory Spec2Isabelle
  imports Complex_Main "HOL-Library.Sublist" "HOL-Library.Multiset" "HOL-Library.AList"
begin

section \<open>Python values used by the retrieval core\<close>

text \<open>
  Strings are byte strings. \<open>str.lower\<close> and \<open>str.split\<close> are modelled on ASCII: the
  letters \<open>A\<close> to \<open>Z\<close> are mapped to \<open>a\<close> to \<open>z\<close>, and the separators of \<open>split()\<close> are
  the ASCII white-space characters (codes 9 to 13, 28 to 32). Scores are Python floats in
  the source; they are idealised as real numbers, so rounding and NaN are not modelled.
\<close>

datatype error = ValueError string | ZeroDivisionError | KeyError | IndexError | TypeError

definition lower_char :: "char \<Rightarrow> char" where
  "lower_char c =
     (let n = (of_char c :: nat) in if 65 \<le> n \<and> n \<le> 90 then char_of (n + 32) else c)"

definition lower :: "string \<Rightarrow> string" where
  "lower s = map lower_char s"

definition is_space :: "char \<Rightarrow> bool" where
  "is_space c = (let n = (of_char c :: nat) in (9 \<le> n \<and> n \<le> 13) \<or> (28 \<le> n \<and> n \<le> 32))"

text \<open>\<open>split_from cur s\<close>: the tokens of \<open>s\<close>, with \<open>cur\<close> the token being read.\<close>

fun split_from :: "string \<Rightarrow> string \<Rightarrow> string list" where
  "split_from cur [] = (if cur = [] then [] else [cur])"
| "split_from cur (c # cs) =
     (if is_space c then (if cur = [] then split_from [] cs else cur # split_from [] cs)
      else split_from (cur @ [c]) cs)"

definition split :: "string \<Rightarrow> string list" where
  "split s = split_from [] s"

text \<open>
  A Python \<open>dict\<close> is an association list in insertion order: \<open>d[k] = v\<close> replaces the value
  of an existing key in place and appends a new key at the end (\<^const>\<open>AList.update\<close>),
  \<open>d.get(k, default)\<close> reads it.
\<close>

definition dict_get :: "('k \<times> 'v) list \<Rightarrow> 'k \<Rightarrow> 'v \<Rightarrow> 'v" where
  "dict_get d k dflt = (case map_of d k of None \<Rightarrow> dflt | Some v \<Rightarrow> v)"

text \<open>The slice \<open>xs[:n]\<close>: a negative \<open>n\<close> counts from the end.\<close>

definition py_take :: "int \<Rightarrow> 'a list \<Rightarrow> 'a list" where
  "py_take n xs = (if 0 \<le> n then take (nat n) xs else take (length xs - nat (- n)) xs)"

text \<open>
  \<open>sorted(xs, key=f, reverse=True)\<close> and \<open>xs.sort(key=f, reverse=True)\<close>: descending by key,
  elements with equal keys keep their original order. Sorting ascending by the negated
  key with the stable insertion sort of the library does exactly that.
\<close>

definition sorted_reverse :: "('a \<Rightarrow> real) \<Rightarrow> 'a list \<Rightarrow> 'a list" where
  "sorted_reverse f xs = sort_key (\<lambda>x. - f x) xs"

section \<open>The knowledge graph (graph\_rag.py)\<close>

datatype RelationshipType =
  AFFECTS | CORRELATES_WITH | COMPONENT_OF | DERIVED_FROM | INVERSE_OF | CAUSES | INFLUENCES

fun rel_value :: "RelationshipType \<Rightarrow> string" where
  "rel_value AFFECTS = ''affects''"
| "rel_value CORRELATES_WITH = ''correlates_with''"
| "rel_value COMPONENT_OF = ''component_of''"
| "rel_value DERIVED_FROM = ''derived_from''"
| "rel_value INVERSE_OF = ''inverse_of''"
| "rel_value CAUSES = ''causes''"
| "rel_value INFLUENCES = ''influences''"

record GraphNode =
  node_id :: string
  entity_type :: string
  name :: string
  description :: string
  node_metadata :: "(string \<times> string) list"

record GraphEdge =
  source_id :: string
  target_id :: string
  relationship :: RelationshipType
  weight :: real
  edge_metadata :: "(string \<times> string) list"

text \<open>
  Keyword arguments. A call \<open>f(a, key=value, **d)\<close> raises \<open>TypeError\<close> before \<open>f\<close> runs
  when a key of \<open>d\<close> is one of the keywords written in the call or the name of a
  parameter that is already bound; \<open>kwargs_clash params d\<close> says that \<open>d\<close> has such a key.
  \<open>dict_update other d\<close> is \<open>d.update(other)\<close>. The values of a metadata dict are
  modelled as strings.
\<close>

definition kwargs_clash :: "string list \<Rightarrow> (string \<times> 'v) list \<Rightarrow> bool" where
  "kwargs_clash params d = list_ex (\<lambda>k. k \<in> set params) (map fst d)"

definition dict_update :: "('k \<times> 'v) list \<Rightarrow> ('k \<times> 'v) list \<Rightarrow> ('k \<times> 'v) list" where
  "dict_update other d = fold (\<lambda>(k, v). AList.update k v) other d"

text \<open>
  The attribute dict networkx keeps for an edge: \<open>edge_data['relationship']\<close> (the value
  string of the enum) and \<open>edge_data['weight']\<close>, which the code reads back, and the
  entries of the metadata of the edge (\<open>ed_metadata\<close>).
\<close>

record edge_data =
  ed_relationship :: string
  ed_weight :: real
  ed_metadata :: "(string \<times> string) list"

text \<open>
  The state of a \<open>GraphRAG\<close> object. \<open>self.graph\<close> is a networkx \<open>DiGraph\<close>: its nodes in
  insertion order, each with its attribute dict (\<open>graph_nodes\<close>), and its edges keyed by
  (source, target) in insertion order (\<open>graph_adj\<close>), one edge per ordered pair.
  \<open>self.nodes\<close> is the dict from node id to \<open>GraphNode\<close>.
\<close>

record GraphRAG =
  graph_nodes :: "(string \<times> (string \<times> string) list) list"
  graph_adj :: "((string \<times> string) \<times> edge_data) list"
  nodes :: "(string \<times> GraphNode) list"

definition GraphRAG_init :: GraphRAG where
  "GraphRAG_init = \<lparr>graph_nodes = [], graph_adj = [], nodes = []\<rparr>"

text \<open>
  \<open>DiGraph.add_node(node_for_adding, **attr)\<close>: a new node gets an empty attribute dict,
  and the attribute dict of the node is updated with \<open>attr\<close>, so the attributes of an
  earlier \<open>add_node\<close> that \<open>attr\<close> does not mention stay.
\<close>

definition nx_add_node ::
  "string \<Rightarrow> (string \<times> string) list \<Rightarrow> (string \<times> (string \<times> string) list) list \<Rightarrow>
   (string \<times> (string \<times> string) list) list" where
  "nx_add_node n attr ns = AList.update n (dict_update attr (dict_get ns n [])) ns"

text \<open>
  \<open>add_node\<close> assigns \<open>self.nodes[node.node_id]\<close> first. The networkx call that follows
  raises \<open>TypeError\<close> when a key of \<open>node.metadata\<close> is \<open>entity_type\<close>, \<open>name\<close> or
  \<open>description\<close> (keywords of the call) or \<open>self\<close> or \<open>node_for_adding\<close> (parameters of
  \<open>DiGraph.add_node\<close>); then the assignment stays and networkx is unchanged. The result is
  the new state and the exception, if any.
\<close>

definition add_node :: "GraphNode \<Rightarrow> GraphRAG \<Rightarrow> GraphRAG \<times> error option" where
  "add_node node g =
     (let g1 = g\<lparr>nodes := AList.update (node_id node) node (nodes g)\<rparr>
      in if kwargs_clash [''self'', ''node_for_adding'', ''entity_type'', ''name'', ''description'']
              (node_metadata node)
         then (g1, Some TypeError)
         else (g1\<lparr>graph_nodes :=
                    nx_add_node (node_id node)
                      ([(''entity_type'', entity_type node), (''name'', name node),
                        (''description'', description node)] @ node_metadata node)
                      (graph_nodes g1)\<rparr>, None))"

text \<open>
  \<open>DiGraph.add_edge(u_of_edge, v_of_edge, **attr)\<close> adds the two endpoints as nodes when
  they are new, and updates the attribute dict of the edge with \<open>attr\<close>. The call raises
  \<open>TypeError\<close>, and nothing changes, when a key of \<open>edge.metadata\<close> is \<open>relationship\<close> or
  \<open>weight\<close> or the name of a parameter of \<open>add_edge\<close>.
\<close>

definition add_edge :: "GraphEdge \<Rightarrow> GraphRAG \<Rightarrow> GraphRAG \<times> error option" where
  "add_edge edge g =
     (if kwargs_clash [''self'', ''u_of_edge'', ''v_of_edge'', ''relationship'', ''weight'']
           (edge_metadata edge)
      then (g, Some TypeError)
      else (g\<lparr>graph_nodes :=
                 nx_add_node (target_id edge) [] (nx_add_node (source_id edge) [] (graph_nodes g)),
               graph_adj :=
                 AList.update (source_id edge, target_id edge)
                   \<lparr>ed_relationship = rel_value (relationship edge), ed_weight = weight edge,
                    ed_metadata =
                      dict_update (edge_metadata edge)
                        (case map_of (graph_adj g) (source_id edge, target_id edge) of
                           None \<Rightarrow> [] | Some d \<Rightarrow> ed_metadata d)\<rparr>
                   (graph_adj g)\<rparr>, None))"

definition find_node_by_name :: "string \<Rightarrow> GraphRAG \<Rightarrow> GraphNode option" where
  "find_node_by_name nm g = List.find (\<lambda>node. lower (name node) = lower nm) (map snd (nodes g))"

text \<open>
  What every graph built by \<open>add_node\<close> and \<open>add_edge\<close> satisfies: the keys of \<open>self.nodes\<close>
  are distinct and each node is stored under its own id.
\<close>

definition nodes_ok :: "GraphRAG \<Rightarrow> bool" where
  "nodes_ok g = (distinct (map fst (nodes g)) \<and> list_all (\<lambda>(k, n). node_id n = k) (nodes g))"

section \<open>Hybrid search (hybrid\_search.py)\<close>

record Document =
  content :: string
  metadata :: "(string \<times> string) list"
  doc_id :: string
  score :: real
  source :: string

subsection \<open>The injected models and libraries\<close>

text \<open>
  The sentence transformer, the cross encoder and NumPy's \<open>argsort\<close> are outside the
  repository and are parameters of the model: \<open>encode\<close> maps a text to its embedding (a
  vector of one fixed dimension), \<open>predict\<close> scores a (query, content) pair, and
  \<open>np_argsort\<close> returns the indices that sort an array.
\<close>

record models =
  encode :: "string \<Rightarrow> real list"
  predict :: "string \<Rightarrow> string \<Rightarrow> real"
  np_argsort :: "real list \<Rightarrow> nat list"

text \<open>
  What NumPy documents about \<open>argsort\<close> with its default sorting kind: the result is a
  rearrangement of the indices that puts the values in ascending order. The order of the
  indices of equal values is not fixed.
\<close>

definition argsort_ok :: "(real list \<Rightarrow> nat list) \<Rightarrow> bool" where
  "argsort_ok f =
     (\<forall>xs. mset (f xs) = mset [0..<length xs] \<and> sorted (map (\<lambda>i. xs ! i) (f xs)))"

text \<open>A stable \<open>argsort\<close>, as NumPy's insertion sort on short arrays is.\<close>

definition stable_argsort :: "real list \<Rightarrow> nat list" where
  "stable_argsort xs = sort_key (\<lambda>i. xs ! i) [0..<length xs]"

subsection \<open>BM25Okapi of the rank\_bm25 library\<close>

text \<open>
  The library's index, built from the tokenised corpus with \<open>k1 = 1.5\<close>, \<open>b = 0.75\<close> and
  \<open>epsilon = 0.25\<close>. The constructor divides by the corpus size and by the number of
  distinct words, so it raises \<open>ZeroDivisionError\<close> on a corpus without documents or
  without words. The term frequencies of a document are read off its token list.
\<close>

record BM25Okapi =
  corpus_size :: nat
  avgdl :: real
  doc_tokens :: "string list list"
  doc_len :: "nat list"
  idf :: "(string \<times> real) list"

definition bm25_k1 :: real where "bm25_k1 = 3 / 2"
definition bm25_b :: real where "bm25_b = 3 / 4"
definition bm25_epsilon :: real where "bm25_epsilon = 1 / 4"

definition doc_count :: "string list list \<Rightarrow> string \<Rightarrow> nat" where
  "doc_count corpus w = length (filter (\<lambda>d. w \<in> set d) corpus)"

definition idf_raw :: "string list list \<Rightarrow> string \<Rightarrow> real" where
  "idf_raw corpus w =
     ln (real (length corpus) - real (doc_count corpus w) + 1 / 2)
       - ln (real (doc_count corpus w) + 1 / 2)"

definition calc_idf :: "string list list \<Rightarrow> (string \<times> real) list" where
  "calc_idf corpus =
     (let words = remdups (concat corpus);
          average_idf = (\<Sum>w\<leftarrow>words. idf_raw corpus w) / real (length words);
          eps = bm25_epsilon * average_idf
      in map (\<lambda>w. (w, if idf_raw corpus w < 0 then eps else idf_raw corpus w)) words)"

definition BM25Okapi_init :: "string list list \<Rightarrow> error + BM25Okapi" where
  "BM25Okapi_init corpus =
     (if length corpus = 0 then Inl ZeroDivisionError
      else if concat corpus = [] then Inl ZeroDivisionError
      else Inr \<lparr>corpus_size = length corpus,
                avgdl = real (length (concat corpus)) / real (length corpus),
                doc_tokens = corpus,
                doc_len = map length corpus,
                idf = calc_idf corpus\<rparr>)"

definition term_score :: "BM25Okapi \<Rightarrow> string \<Rightarrow> string list \<Rightarrow> real" where
  "term_score bm q d =
     dict_get (idf bm) q 0 *
       (real (count_list d q) * (bm25_k1 + 1) /
          (real (count_list d q) + bm25_k1 * (1 - bm25_b + bm25_b * real (length d) / avgdl bm)))"

text \<open>
  \<open>get_scores\<close> adds, for each query token in turn, the vector of the term scores of all
  documents; \<open>doc_score\<close> is the entry of one document in the sum.
\<close>

definition doc_score :: "BM25Okapi \<Rightarrow> string list \<Rightarrow> string list \<Rightarrow> real" where
  "doc_score bm query d = (\<Sum>q\<leftarrow>query. term_score bm q d)"

definition get_scores :: "BM25Okapi \<Rightarrow> string list \<Rightarrow> real list" where
  "get_scores bm query = map (doc_score bm query) (doc_tokens bm)"

subsection \<open>The engine\<close>

record engine =
  documents :: "Document list"
  embeddings :: "real list list option"
  bm25 :: "BM25Okapi option"

definition engine_init :: engine where
  "engine_init = \<lparr>documents = [], embeddings = None, bm25 = None\<rparr>"

definition not_indexed :: error where
  "not_indexed = ValueError ''Documents not indexed. Call index_documents() first.''"

text \<open>
  \<open>index_documents\<close> assigns \<open>self.documents\<close> and \<open>self.embeddings\<close> before it builds the
  BM25 index; when the constructor raises, the two assignments stay and \<open>self.bm25\<close> keeps
  its old value. The result is the new state and the exception, if any.
\<close>

definition index_documents :: "models \<Rightarrow> Document list \<Rightarrow> engine \<Rightarrow> engine \<times> error option" where
  "index_documents m docs st =
     (let st1 = st\<lparr>documents := docs\<rparr>;
          contents = map content docs;
          st2 = st1\<lparr>embeddings := Some (map (encode m) contents)\<rparr>;
          tokenized_corpus = map (\<lambda>doc. split (lower (content doc))) docs
      in case BM25Okapi_init tokenized_corpus of
           Inl e \<Rightarrow> (st2, Some e)
         | Inr bm \<Rightarrow> (st2\<lparr>bm25 := Some bm\<rparr>, None))"

definition dot :: "real list \<Rightarrow> real list \<Rightarrow> real" where
  "dot xs ys = (\<Sum>(x, y)\<leftarrow>zip xs ys. x * y)"

definition norm2 :: "real list \<Rightarrow> real" where
  "norm2 xs = sqrt (\<Sum>x\<leftarrow>xs. x * x)"

definition cosine :: "real list \<Rightarrow> real list \<Rightarrow> real" where
  "cosine doc_vec query_vec = dot doc_vec query_vec / (norm2 doc_vec * norm2 query_vec)"

text \<open>
  The comprehension \<open>[(self.documents[idx], float(scores[idx])) for idx in top_indices]\<close>;
  an index out of range raises \<open>IndexError\<close>.
\<close>

fun pick :: "Document list \<Rightarrow> real list \<Rightarrow> nat list \<Rightarrow> error + (Document \<times> real) list" where
  "pick docs scores [] = Inr []"
| "pick docs scores (idx # rest) =
     (if idx < length docs \<and> idx < length scores
      then (case pick docs scores rest of
              Inl e \<Rightarrow> Inl e
            | Inr r \<Rightarrow> Inr ((docs ! idx, scores ! idx) # r))
      else Inl IndexError)"

text \<open>The same comprehension with the condition \<open>if scores[idx] > 0\<close>.\<close>

fun pick_positive :: "Document list \<Rightarrow> real list \<Rightarrow> nat list \<Rightarrow> error + (Document \<times> real) list" where
  "pick_positive docs scores [] = Inr []"
| "pick_positive docs scores (idx # rest) =
     (if \<not> idx < length scores then Inl IndexError
      else if scores ! idx > 0
      then (if idx < length docs
            then (case pick_positive docs scores rest of
                    Inl e \<Rightarrow> Inl e
                  | Inr r \<Rightarrow> Inr ((docs ! idx, scores ! idx) # r))
            else Inl IndexError)
      else pick_positive docs scores rest)"

definition dense_search :: "models \<Rightarrow> engine \<Rightarrow> string \<Rightarrow> int \<Rightarrow> error + (Document \<times> real) list" where
  "dense_search m st query top_k =
     (case embeddings st of
        None \<Rightarrow> Inl not_indexed
      | Some embs \<Rightarrow>
          (let query_embedding = encode m query;
               similarities = map (\<lambda>e. cosine e query_embedding) embs;
               top_indices = py_take top_k (rev (np_argsort m similarities))
           in pick (documents st) similarities top_indices))"

definition sparse_search :: "models \<Rightarrow> engine \<Rightarrow> string \<Rightarrow> int \<Rightarrow> error + (Document \<times> real) list" where
  "sparse_search m st query top_k =
     (case bm25 st of
        None \<Rightarrow> Inl not_indexed
      | Some bm \<Rightarrow>
          (let tokenized_query = split (lower query);
               scores = get_scores bm tokenized_query;
               top_indices = py_take top_k (rev (np_argsort m scores))
           in case pick_positive (documents st) scores top_indices of
                Inl e \<Rightarrow> Inl e
              | Inr results \<Rightarrow> Inr (py_take top_k results)))"

subsection \<open>Example data\<close>

text \<open>
  Stub models for the examples: every text has the embedding \<open>(1, 0)\<close>, the pairwise
  scorer is the length of the content, and \<open>argsort\<close> is the stable one.
\<close>

definition stub_models :: models where
  "stub_models = \<lparr>encode = (\<lambda>s. [1, 0]), predict = (\<lambda>q c. real (length c)),
                   np_argsort = stable_argsort\<rparr>"

definition mk_doc :: "string \<Rightarrow> string \<Rightarrow> Document" where
  "mk_doc i c = \<lparr>content = c, metadata = [], doc_id = i, score = 0, source = ''''\<rparr>"

definition corpus3 :: "Document list" where
  "corpus3 = [mk_doc ''d1'' ''Risk'', mk_doc ''d2'' ''bond yield'', mk_doc ''d3'' ''stock'']"

definition corpus_ab :: "Document list" where
  "corpus_ab = [mk_doc ''a'' ''alpha'', mk_doc ''b'' ''beta'']"

subsection \<open>Reciprocal rank fusion\<close>

text \<open>
  One of the two loops \<open>for rank, (doc, _) in enumerate(results, start=1)\<close>, started at
  rank \<open>r\<close> with the dict \<open>doc_scores\<close>. \<open>k\<close> is a Python \<open>int\<close>; the division
  \<open>1 / (k + rank)\<close> raises \<open>ZeroDivisionError\<close> when \<open>k + rank\<close> is zero.
\<close>

fun add_ranks ::
  "int \<Rightarrow> int \<Rightarrow> (Document \<times> real) list \<Rightarrow> (string \<times> real) list \<Rightarrow> error + (string \<times> real) list"
where
  "add_ranks k r [] doc_scores = Inr doc_scores"
| "add_ranks k r ((doc, _) # rest) doc_scores =
     (if k + r = 0 then Inl ZeroDivisionError
      else add_ranks k (r + 1) rest
             (AList.update (doc_id doc)
                (dict_get doc_scores (doc_id doc) 0 + 1 / real_of_int (k + r)) doc_scores))"

text \<open>The comprehension \<open>[(all_docs[doc_id], score) for doc_id, score in sorted_docs]\<close>.\<close>

fun lookup_docs ::
  "(string \<times> Document) list \<Rightarrow> (string \<times> real) list \<Rightarrow> error + (Document \<times> real) list"
where
  "lookup_docs all_docs [] = Inr []"
| "lookup_docs all_docs ((i, s) # rest) =
     (case map_of all_docs i of
        None \<Rightarrow> Inl KeyError
      | Some doc \<Rightarrow>
          (case lookup_docs all_docs rest of
             Inl e \<Rightarrow> Inl e
           | Inr r \<Rightarrow> Inr ((doc, s) # r)))"

definition reciprocal_rank_fusion ::
  "(Document \<times> real) list \<Rightarrow> (Document \<times> real) list \<Rightarrow> int \<Rightarrow> error + (Document \<times> real) list"
where
  "reciprocal_rank_fusion dense_results sparse_results k =
     (case add_ranks k 1 dense_results [] of
        Inl e \<Rightarrow> Inl e
      | Inr doc_scores1 \<Rightarrow>
          (case add_ranks k 1 sparse_results doc_scores1 of
             Inl e \<Rightarrow> Inl e
           | Inr doc_scores \<Rightarrow>
               (let all_docs = fold (\<lambda>(doc, _). AList.update (doc_id doc) doc)
                                 (dense_results @ sparse_results) [];
                    sorted_docs = sorted_reverse snd doc_scores
                in lookup_docs all_docs sorted_docs)))"

text \<open>
  The fused score as the specification words it: the contribution of one list to an id is
  the sum of \<open>1 / (k + rank)\<close> over the 1-based positions \<open>rank\<close> at which the id occurs in
  that list, and the fused score is the sum of the contributions of the two lists.
  \<open>first_seen\<close> lists the distinct elements of a list in the order of their first
  occurrence.
\<close>

definition rank_contrib :: "int \<Rightarrow> (Document \<times> real) list \<Rightarrow> string \<Rightarrow> real" where
  "rank_contrib k results i =
     (\<Sum>n\<leftarrow>[0..<length results].
        if doc_id (fst (results ! n)) = i then 1 / real_of_int (k + 1 + int n) else 0)"

definition fused_score ::
  "int \<Rightarrow> (Document \<times> real) list \<Rightarrow> (Document \<times> real) list \<Rightarrow> string \<Rightarrow> real" where
  "fused_score k dense_results sparse_results i =
     rank_contrib k dense_results i + rank_contrib k sparse_results i"

fun first_seen :: "'a list \<Rightarrow> 'a list" where
  "first_seen [] = []"
| "first_seen (x # xs) = x # filter (\<lambda>y. y \<noteq> x) (first_seen xs)"

definition doc_A :: Document where "doc_A = mk_doc ''A'' ''alpha''"
definition doc_B :: Document where "doc_B = mk_doc ''B'' ''beta''"
definition doc_C :: Document where "doc_C = mk_doc ''C'' ''gamma''"
definition doc_D :: Document where "doc_D = mk_doc ''D'' ''delta''"

subsection \<open>Reranking and the pipeline\<close>

text \<open>
  \<open>self.reranker.predict(pairs)\<close> returns one score for each (query, content) pair, in the
  order of the pairs.
\<close>

definition rerank :: "models \<Rightarrow> string \<Rightarrow> (Document \<times> real) list \<Rightarrow> int \<Rightarrow> (Document \<times> real) list" where
  "rerank m query candidates top_k =
     (let pairs = map (\<lambda>(doc, _). (query, content doc)) candidates;
          rerank_scores = map (\<lambda>(q, c). predict m q c) pairs;
          reranked = map (\<lambda>((doc, _), s). (doc, s)) (zip candidates rerank_scores)
      in py_take top_k (sorted_reverse snd reranked))"

record retrieval_metadata =
  md_query :: string
  total_documents :: nat
  dense_retrieved :: nat
  sparse_retrieved :: nat
  fused_candidates :: nat
  final_count :: nat

record RetrievalResult =
  rr_documents :: "Document list"
  dense_scores :: "real list"
  sparse_scores :: "real list"
  fusion_scores :: "real list"
  rerank_scores :: "real list"
  rr_metadata :: retrieval_metadata

definition advanced_rag_pipeline ::
  "models \<Rightarrow> engine \<Rightarrow> string \<Rightarrow> int \<Rightarrow> int \<Rightarrow> int \<Rightarrow> error + RetrievalResult" where
  "advanced_rag_pipeline m st user_query top_k_dense top_k_sparse top_k_final =
     (case dense_search m st user_query top_k_dense of
        Inl e \<Rightarrow> Inl e
      | Inr dense_results \<Rightarrow>
     (case sparse_search m st user_query top_k_sparse of
        Inl e \<Rightarrow> Inl e
      | Inr sparse_results \<Rightarrow>
     (case reciprocal_rank_fusion dense_results sparse_results 60 of
        Inl e \<Rightarrow> Inl e
      | Inr fused_results \<Rightarrow>
          (let reranked_results = rerank m user_query fused_results top_k_final;
               final_documents = map fst reranked_results
           in Inr \<lparr>rr_documents = final_documents,
                   dense_scores = map snd (py_take top_k_final dense_results),
                   sparse_scores = map snd (py_take top_k_final sparse_results),
                   fusion_scores = map snd (py_take top_k_final fused_results),
                   rerank_scores = map snd reranked_results,
                   rr_metadata =
                     \<lparr>md_query = user_query,
                      total_documents = length (documents st),
                      dense_retrieved = length dense_results,
                      sparse_retrieved = length sparse_results,
                      fused_candidates = length fused_results,
                      final_count = length final_documents\<rparr>\<rparr>))))"

section \<open>Facts about dicts\<close>

lemma update_twice:
  "AList.update k v2 (AList.update k v1 al) = AList.update k v2 al"
  by (induction al) auto

lemma length_update_value:
  "length (AList.update k v al) = length (AList.update k w al)"
  by (induction al) auto

lemma nx_add_node_keys:
  "map fst (nx_add_node n attr ns) = (if n \<in> set (map fst ns) then map fst ns else map fst ns @ [n])"
  by (simp add: nx_add_node_def update_keys)

lemma update_entries:
  "(k', v') \<in> set (AList.update k v al) \<Longrightarrow> (k', v') = (k, v) \<or> (k', v') \<in> set al"
  by (induction al) (auto split: if_splits)

lemma update_distinct_entry:
  "distinct (map fst al) \<Longrightarrow> (k, v') \<in> set (AList.update k v al) \<Longrightarrow> v' = v"
  by (induction al) (force split: if_splits dest: update_entries)+

lemma nodes_ok_init: "nodes_ok GraphRAG_init"
  by (simp add: nodes_ok_def GraphRAG_init_def)

lemma nodes_add_node: "nodes (fst (add_node n g)) = AList.update (node_id n) n (nodes g)"
  by (simp add: add_node_def Let_def)

lemma nodes_ok_add_node: "nodes_ok g \<Longrightarrow> nodes_ok (fst (add_node n g))"
  by (auto simp: nodes_ok_def nodes_add_node distinct_update list_all_iff dest: update_entries)

lemma nodes_ok_add_edge: "nodes_ok g \<Longrightarrow> nodes_ok (fst (add_edge e g))"
  by (simp add: nodes_ok_def add_edge_def)

lemma find_update_match:
  "P v \<Longrightarrow> \<forall>x\<in>set al. fst x \<noteq> k \<longrightarrow> \<not> P (snd x) \<Longrightarrow>
   List.find P (map snd (AList.update k v al)) = Some v"
  by (induction al) auto

lemma find_update_no_match:
  "\<not> P v \<Longrightarrow> distinct (map fst al) \<Longrightarrow> \<forall>x\<in>set al. fst x \<noteq> k \<longrightarrow> \<not> P (snd x) \<Longrightarrow>
   List.find P (map snd (AList.update k v al)) = None"
proof (induction al)
  case Nil
  then show ?case by simp
next
  case (Cons a al)
  show ?case
  proof (cases "fst a = k")
    case True
    with Cons.prems have "\<forall>x\<in>set al. fst x \<noteq> k" by (auto simp: image_iff)
    with Cons.prems True have "List.find P (map snd al) = None"
      by (auto simp: find_None_iff)
    with Cons.prems True show ?thesis by (cases a) simp
  next
    case False
    with Cons show ?thesis by (cases a) auto
  qed
qed

lemma find_Some_mem: "List.find P xs = Some x \<Longrightarrow> x \<in> set xs \<and> P x"
  by (induction xs) (auto split: if_splits)

section \<open>Overwriting a node\<close>

text \<open>
  C10. Let \<open>add_node(n2)\<close> follow \<open>add_node(n1)\<close> for two nodes with the same id. Then the
  lookup of the id in \<open>self.nodes\<close> gives \<open>n2\<close>; \<open>self.nodes\<close> keeps its keys, so its size
  does not grow, and when the first call returned normally the node set of networkx
  does not grow either. \<open>find_node_by_name\<close> resolves against the replacement: a name
  that matches \<open>n2\<close> and no node stored under another id is resolved to \<open>n2\<close>; in a graph
  built by \<open>add_node\<close>, a name that matches neither \<open>n2\<close> nor a node under another id is
  not resolved at all, whatever the name of \<open>n1\<close> was, and no search returns \<open>n1\<close>.
\<close>

theorem add_node_overwrites:
  assumes "node_id n1 = node_id n2"
  shows "map_of (nodes (fst (add_node n2 (fst (add_node n1 g))))) (node_id n1) = Some n2
       \<and> map fst (nodes (fst (add_node n2 (fst (add_node n1 g)))))
           = map fst (nodes (fst (add_node n1 g)))
       \<and> length (nodes (fst (add_node n2 (fst (add_node n1 g)))))
           = length (nodes (fst (add_node n1 g)))
       \<and> (snd (add_node n1 g) = None \<longrightarrow>
            map fst (graph_nodes (fst (add_node n2 (fst (add_node n1 g)))))
              = map fst (graph_nodes (fst (add_node n1 g))))
       \<and> (lower (name n2) = lower nm
            \<and> (\<forall>x\<in>set (nodes g). fst x \<noteq> node_id n2 \<longrightarrow> lower (name (snd x)) \<noteq> lower nm)
          \<longrightarrow> find_node_by_name nm (fst (add_node n2 (fst (add_node n1 g)))) = Some n2)
       \<and> (nodes_ok g \<and> lower (name n2) \<noteq> lower nm
            \<and> (\<forall>x\<in>set (nodes g). fst x \<noteq> node_id n2 \<longrightarrow> lower (name (snd x)) \<noteq> lower nm)
          \<longrightarrow> find_node_by_name nm (fst (add_node n2 (fst (add_node n1 g)))) = None)
       \<and> (nodes_ok g \<and> n1 \<noteq> n2
          \<longrightarrow> find_node_by_name nm (fst (add_node n2 (fst (add_node n1 g)))) \<noteq> Some n1)"
proof -
  let ?g1 = "fst (add_node n1 g)"
  let ?g2 = "fst (add_node n2 ?g1)"
  let ?P = "\<lambda>node. lower (name node) = lower nm"
  have n2: "nodes ?g2 = AList.update (node_id n2) n2 (nodes g)"
    using assms by (simp add: nodes_add_node update_twice)
  have n1: "nodes ?g1 = AList.update (node_id n2) n1 (nodes g)"
    using assms by (simp add: nodes_add_node)
  have look: "map_of (nodes ?g2) (node_id n1) = Some n2"
    using assms by (simp add: n2 update_conv')
  have keys: "map fst (nodes ?g2) = map fst (nodes ?g1)"
    by (simp add: n1 n2 update_keys)
  from keys have len: "length (nodes ?g2) = length (nodes ?g1)"
    by (metis length_map)
  have nx: "map fst (graph_nodes ?g2) = map fst (graph_nodes ?g1)"
    if "snd (add_node n1 g) = None"
  proof -
    from that have "graph_nodes ?g1
        = nx_add_node (node_id n2)
            ([(''entity_type'', entity_type n1), (''name'', name n1),
              (''description'', description n1)] @ node_metadata n1) (graph_nodes g)"
      using assms by (auto simp: add_node_def Let_def split: if_splits)
    then have "map fst (graph_nodes ?g1)
        = (if node_id n2 \<in> set (map fst (graph_nodes g)) then map fst (graph_nodes g)
           else map fst (graph_nodes g) @ [node_id n2])"
      by (simp only: nx_add_node_keys)
    then have mem: "node_id n2 \<in> set (map fst (graph_nodes ?g1))"
      by (simp split: if_splits)
    show ?thesis
    proof (cases "snd (add_node n2 ?g1) = None")
      case True
      then have "graph_nodes ?g2
          = nx_add_node (node_id n2)
              ([(''entity_type'', entity_type n2), (''name'', name n2),
                (''description'', description n2)] @ node_metadata n2) (graph_nodes ?g1)"
        by (auto simp: add_node_def [of n2] Let_def split: if_splits)
      then have "map fst (graph_nodes ?g2)
          = (if node_id n2 \<in> set (map fst (graph_nodes ?g1)) then map fst (graph_nodes ?g1)
             else map fst (graph_nodes ?g1) @ [node_id n2])"
        by (simp only: nx_add_node_keys)
      with mem show ?thesis by (simp only: if_True)
    next
      case False
      then show ?thesis by (auto simp: add_node_def [of n2] Let_def split: if_splits)
    qed
  qed
  have pos: "find_node_by_name nm ?g2 = Some n2"
    if "?P n2" and "\<forall>x\<in>set (nodes g). fst x \<noteq> node_id n2 \<longrightarrow> \<not> ?P (snd x)"
    unfolding find_node_by_name_def n2 using that by (rule find_update_match)
  have neg: "find_node_by_name nm ?g2 = None"
    if "nodes_ok g" and "\<not> ?P n2"
      and "\<forall>x\<in>set (nodes g). fst x \<noteq> node_id n2 \<longrightarrow> \<not> ?P (snd x)"
    unfolding find_node_by_name_def n2
    using that by (intro find_update_no_match) (simp_all add: nodes_ok_def)
  have old: "find_node_by_name nm ?g2 \<noteq> Some n1" if ok: "nodes_ok g" and ne: "n1 \<noteq> n2"
  proof
    assume f: "find_node_by_name nm ?g2 = Some n1"
    then have "n1 \<in> set (map snd (nodes ?g2))"
      by (auto simp: find_node_by_name_def dest: find_Some_mem)
    then obtain k where mem: "(k, n1) \<in> set (AList.update (node_id n2) n2 (nodes g))"
      by (auto simp: n2)
    have "nodes_ok ?g2" using ok by (intro nodes_ok_add_node)
    with mem have "k = node_id n1" by (auto simp: nodes_ok_def list_all_iff n2)
    with mem assms ok have "n1 = n2" by (auto simp: nodes_ok_def dest: update_distinct_entry)
    with ne show False by simp
  qed
  from look keys len nx pos neg old show ?thesis by blast
qed

theorem add_node_overwrites_witness:
  "node_id \<lparr>node_id = ''n1'', entity_type = ''metric'', name = ''Old'',
            description = ''d1'', node_metadata = [(''formula'', ''5'')]\<rparr>
     = node_id \<lparr>node_id = ''n1'', entity_type = ''metric'', name = ''New'',
                description = ''d2'', node_metadata = []\<rparr>
   \<and> snd (add_node \<lparr>node_id = ''n1'', entity_type = ''metric'', name = ''Old'',
                    description = ''d1'', node_metadata = [(''formula'', ''5'')]\<rparr>
            GraphRAG_init) = None
   \<and> nodes_ok GraphRAG_init
   \<and> map_of (nodes (fst (add_node \<lparr>node_id = ''n1'', entity_type = ''metric'', name = ''New'',
                            description = ''d2'', node_metadata = []\<rparr>
                  (fst (add_node \<lparr>node_id = ''n1'', entity_type = ''metric'', name = ''Old'',
                             description = ''d1'', node_metadata = [(''formula'', ''5'')]\<rparr>
                         GraphRAG_init))))) ''n1''
     = Some \<lparr>node_id = ''n1'', entity_type = ''metric'', name = ''New'',
             description = ''d2'', node_metadata = []\<rparr>
   \<and> map fst (graph_nodes (fst (add_node \<lparr>node_id = ''n1'', entity_type = ''metric'', name = ''New'',
                            description = ''d2'', node_metadata = []\<rparr>
                  (fst (add_node \<lparr>node_id = ''n1'', entity_type = ''metric'', name = ''Old'',
                             description = ''d1'', node_metadata = [(''formula'', ''5'')]\<rparr>
                         GraphRAG_init))))) = [''n1'']
   \<and> find_node_by_name ''NEW''
        (fst (add_node \<lparr>node_id = ''n1'', entity_type = ''metric'', name = ''New'',
                   description = ''d2'', node_metadata = []\<rparr>
          (fst (add_node \<lparr>node_id = ''n1'', entity_type = ''metric'', name = ''Old'',
                     description = ''d1'', node_metadata = [(''formula'', ''5'')]\<rparr>
                 GraphRAG_init))))
      = Some \<lparr>node_id = ''n1'', entity_type = ''metric'', name = ''New'',
               description = ''d2'', node_metadata = []\<rparr>
   \<and> find_node_by_name ''old''
        (fst (add_node \<lparr>node_id = ''n1'', entity_type = ''metric'', name = ''New'',
                   description = ''d2'', node_metadata = []\<rparr>
          (fst (add_node \<lparr>node_id = ''n1'', entity_type = ''metric'', name = ''Old'',
                     description = ''d1'', node_metadata = [(''formula'', ''5'')]\<rparr>
                 GraphRAG_init))))
      = None"
proof -
  let ?old = "\<lparr>node_id = ''n1'', entity_type = ''metric'', name = ''Old'',
            description = ''d1'', node_metadata = [(''formula'', ''5'')]\<rparr>"
  let ?new = "\<lparr>node_id = ''n1'', entity_type = ''metric'', name = ''New'',
            description = ''d2'', node_metadata = []\<rparr>"
  have l1: "lower ''New'' = lower ''NEW''" by code_simp
  have l2: "lower ''New'' \<noteq> lower ''old''" by code_simp
  have ok: "snd (add_node ?old GraphRAG_init) = None"
    by (simp add: add_node_def Let_def kwargs_clash_def)
  have g1: "map fst (graph_nodes (fst (add_node ?old GraphRAG_init))) = [''n1'']"
    by (simp add: add_node_def Let_def kwargs_clash_def GraphRAG_init_def nx_add_node_keys)
  have e: "nodes GraphRAG_init = []" by (simp add: GraphRAG_init_def)
  from add_node_overwrites [of ?old ?new GraphRAG_init "''NEW''"]
    add_node_overwrites [of ?old ?new GraphRAG_init "''old''"]
    nodes_ok_init l1 l2 ok g1 e
  show ?thesis by simp
qed

section \<open>Facts about the searches\<close>

lemma pick_Inl: "pick docs scores idxs = Inl e \<Longrightarrow> e = IndexError"
  by (induction idxs arbitrary: e) (auto split: if_splits sum.splits)

lemma pick_positive_Inl: "pick_positive docs scores idxs = Inl e \<Longrightarrow> e = IndexError"
  by (induction idxs arbitrary: e) (auto split: if_splits sum.splits)

lemma pick_Inr:
  "\<forall>i\<in>set idxs. i < length docs \<and> i < length scores \<Longrightarrow>
   pick docs scores idxs = Inr (map (\<lambda>i. (docs ! i, scores ! i)) idxs)"
  by (induction idxs) auto

lemma pick_positive_Inr:
  "\<forall>i\<in>set idxs. i < length docs \<and> i < length scores \<Longrightarrow>
   pick_positive docs scores idxs
     = Inr (map (\<lambda>i. (docs ! i, scores ! i)) (filter (\<lambda>i. scores ! i > 0) idxs))"
  by (induction idxs) auto

lemma set_py_take: "set (py_take n xs) \<subseteq> set xs"
  by (auto simp: py_take_def dest: in_set_takeD)

lemma argsort_ok_set: "argsort_ok f \<Longrightarrow> set (f xs) = {0..<length xs}"
  by (metis argsort_ok_def mset_eq_setD set_upt)

lemma argsort_ok_stable: "argsort_ok stable_argsort"
  by (simp add: argsort_ok_def stable_argsort_def)

lemma not_indexed_neq: "not_indexed \<noteq> IndexError"
  by (simp add: not_indexed_def)

lemma index_documents_state:
  "index_documents m docs st = (st', None) \<Longrightarrow>
   documents st' = docs \<and> embeddings st' = Some (map (encode m) (map content docs))
   \<and> (\<exists>bm. bm25 st' = Some bm \<and>
        BM25Okapi_init (map (\<lambda>doc. split (lower (content doc))) docs) = Inr bm)"
  by (auto simp: index_documents_def Let_def split: sum.splits)

lemma BM25Okapi_init_tokens:
  "BM25Okapi_init corpus = Inr bm \<Longrightarrow> doc_tokens bm = corpus \<and> corpus \<noteq> [] \<and> concat corpus \<noteq> []"
  by (auto simp: BM25Okapi_init_def split: if_splits)

lemma length_get_scores: "length (get_scores bm q) = length (doc_tokens bm)"
  by (simp add: get_scores_def)

lemma split_risk_of_bonds: "split (lower ''Risk of bonds'') = [''risk'', ''of'', ''bonds'']"
  by code_simp

section \<open>Searching before and after indexing\<close>

text \<open>
  C8. A search on an engine whose index is missing fails with the error
  \<open>ValueError("Documents not indexed. Call index_documents() first.")\<close>: \<open>dense_search\<close>
  when \<open>self.embeddings\<close> is \<open>None\<close>, \<open>sparse_search\<close> when \<open>self.bm25\<close> is \<open>None\<close>, both on
  a new engine. After a call of \<open>index_documents\<close> that returned normally neither search
  raises that error, whatever \<open>argsort\<close> does; with \<open>argsort\<close> as documented both searches
  return a result. \<open>index_documents\<close> returns normally on every corpus that contains a
  word.
\<close>

theorem not_indexed_error:
  "(embeddings st = None \<longrightarrow> dense_search m st query top_k = Inl not_indexed)
   \<and> (bm25 st = None \<longrightarrow> sparse_search m st query top_k = Inl not_indexed)
   \<and> dense_search m engine_init query top_k = Inl not_indexed
   \<and> sparse_search m engine_init query top_k = Inl not_indexed
   \<and> (index_documents m docs st = (st', None) \<longrightarrow>
        dense_search m st' query top_k \<noteq> Inl not_indexed
        \<and> sparse_search m st' query top_k \<noteq> Inl not_indexed
        \<and> (argsort_ok (np_argsort m) \<longrightarrow>
             (\<exists>r. dense_search m st' query top_k = Inr r)
             \<and> (\<exists>r. sparse_search m st' query top_k = Inr r)))
   \<and> (concat (map (\<lambda>doc. split (lower (content doc))) docs) \<noteq> [] \<longrightarrow>
        snd (index_documents m docs st) = None)"
proof -
  have a: "embeddings st = None \<longrightarrow> dense_search m st query top_k = Inl not_indexed"
    by (simp add: dense_search_def)
  have b: "bm25 st = None \<longrightarrow> sparse_search m st query top_k = Inl not_indexed"
    by (simp add: sparse_search_def)
  have c: "dense_search m engine_init query top_k = Inl not_indexed"
    by (simp add: dense_search_def engine_init_def)
  have d: "sparse_search m engine_init query top_k = Inl not_indexed"
    by (simp add: sparse_search_def engine_init_def)
  have e: "dense_search m st' query top_k \<noteq> Inl not_indexed
        \<and> sparse_search m st' query top_k \<noteq> Inl not_indexed
        \<and> (argsort_ok (np_argsort m) \<longrightarrow>
             (\<exists>r. dense_search m st' query top_k = Inr r)
             \<and> (\<exists>r. sparse_search m st' query top_k = Inr r))"
    if ix: "index_documents m docs st = (st', None)"
  proof -
    from index_documents_state [OF ix] obtain bm where
      docs: "documents st' = docs" and
      embs: "embeddings st' = Some (map (encode m) (map content docs))" and
      bm: "bm25 st' = Some bm" and
      init: "BM25Okapi_init (map (\<lambda>doc. split (lower (content doc))) docs) = Inr bm"
      by blast
    from BM25Okapi_init_tokens [OF init] have len: "length (doc_tokens bm) = length docs"
      by auto
    have d1: "dense_search m st' query top_k \<noteq> Inl not_indexed"
      using embs not_indexed_neq by (auto simp: dense_search_def Let_def dest: pick_Inl)
    have s1: "sparse_search m st' query top_k \<noteq> Inl not_indexed"
      using bm not_indexed_neq
      by (auto simp: sparse_search_def Let_def split: sum.splits dest: pick_positive_Inl)
    have d2: "\<exists>r. dense_search m st' query top_k = Inr r" if ok: "argsort_ok (np_argsort m)"
    proof -
      let ?sims = "map (\<lambda>e. cosine e (encode m query)) (map (encode m) (map content docs))"
      have "\<forall>i\<in>set (py_take top_k (rev (np_argsort m ?sims))). i < length docs \<and> i < length ?sims"
        using set_py_take [of top_k "rev (np_argsort m ?sims)"] argsort_ok_set [OF ok, of ?sims]
        by auto
      from pick_Inr [OF this] show ?thesis
        using embs docs by (simp add: dense_search_def Let_def)
    qed
    have s2: "\<exists>r. sparse_search m st' query top_k = Inr r" if ok: "argsort_ok (np_argsort m)"
    proof -
      let ?sc = "get_scores bm (split (lower query))"
      have "\<forall>i\<in>set (py_take top_k (rev (np_argsort m ?sc))). i < length docs \<and> i < length ?sc"
        using set_py_take [of top_k "rev (np_argsort m ?sc)"] argsort_ok_set [OF ok, of ?sc] len
        by (auto simp: length_get_scores)
      from pick_positive_Inr [OF this] show ?thesis
        using bm docs by (simp add: sparse_search_def Let_def)
    qed
    from d1 s1 d2 s2 show ?thesis by blast
  qed
  have f: "snd (index_documents m docs st) = None"
    if "concat (map (\<lambda>doc. split (lower (content doc))) docs) \<noteq> []"
    using that by (auto simp: index_documents_def Let_def BM25Okapi_init_def)
  from a b c d e f show ?thesis by blast
qed

theorem not_indexed_error_witness:
  "embeddings engine_init = None \<and> bm25 engine_init = None
   \<and> argsort_ok (np_argsort stub_models)
   \<and> dense_search stub_models engine_init ''risk'' 5 = Inl not_indexed
   \<and> sparse_search stub_models engine_init ''risk'' 5 = Inl not_indexed
   \<and> snd (index_documents stub_models [mk_doc ''d1'' ''Risk of bonds''] engine_init) = None
   \<and> (\<exists>r. dense_search stub_models
        (fst (index_documents stub_models [mk_doc ''d1'' ''Risk of bonds''] engine_init))
        ''risk'' 5 = Inr r)
   \<and> (\<exists>r. sparse_search stub_models
        (fst (index_documents stub_models [mk_doc ''d1'' ''Risk of bonds''] engine_init))
        ''risk'' 5 = Inr r)"
proof -
  let ?r = "index_documents stub_models [mk_doc ''d1'' ''Risk of bonds''] engine_init"
  have tok: "concat (map (\<lambda>doc. split (lower (content doc))) [mk_doc ''d1'' ''Risk of bonds'']) \<noteq> []"
    by (simp add: mk_doc_def split_risk_of_bonds)
  have none: "embeddings engine_init = None \<and> bm25 engine_init = None"
    by (simp add: engine_init_def)
  have ok: "argsort_ok (np_argsort stub_models)"
    by (simp add: stub_models_def argsort_ok_stable)
  note t = not_indexed_error [of engine_init stub_models "''risk''" 5
      "[mk_doc ''d1'' ''Risk of bonds'']" "fst ?r"]
  from t tok have sn: "snd ?r = None" by blast
  then have "?r = (fst ?r, None)" by (metis prod.collapse)
  with t none ok sn show ?thesis by blast
qed

section \<open>Sparse search returns positive scores only\<close>

lemma sum_list_all_zero: "\<forall>x\<in>set xs. f x = (0::real) \<Longrightarrow> (\<Sum>x\<leftarrow>xs. f x) = 0"
  by (induction xs) auto

lemma doc_score_no_overlap:
  "set d \<inter> set query = {} \<Longrightarrow> doc_score bm query d = 0"
proof -
  assume dis: "set d \<inter> set query = {}"
  have "term_score bm q d = 0" if "q \<in> set query" for q
  proof -
    from dis that have "q \<notin> set d" by auto
    then have "count_list d q = 0" by (simp add: count_list_0_iff)
    then show ?thesis by (simp add: term_score_def)
  qed
  then show ?thesis by (simp add: doc_score_def sum_list_all_zero)
qed

lemma length_py_take: "0 \<le> n \<Longrightarrow> int (length (py_take n xs)) \<le> n"
  by (simp add: py_take_def)

text \<open>
  C4. On an indexed corpus \<open>sparse_search\<close> returns a list in which every pair is a
  document of the corpus with its BM25 score for the query, that score is strictly
  positive, and the document shares a token with the query; so a document whose score is
  not positive, in particular one without a query term, is never returned. For
  \<open>top_k \<ge> 0\<close> the list has at most \<open>top_k\<close> entries.
\<close>

theorem sparse_search_positive:
  assumes "index_documents m docs st0 = (st, None)" and "argsort_ok (np_argsort m)"
  shows "\<exists>res bm. sparse_search m st query top_k = Inr res \<and> bm25 st = Some bm
     \<and> (\<forall>(d, s) \<in> set res.
           d \<in> set docs
         \<and> s = doc_score bm (split (lower query)) (split (lower (content d)))
         \<and> 0 < s
         \<and> set (split (lower (content d))) \<inter> set (split (lower query)) \<noteq> {})
     \<and> (0 \<le> top_k \<longrightarrow> int (length res) \<le> top_k)"
proof -
  from index_documents_state [OF assms(1)] obtain bm where
    docs: "documents st = docs" and
    bm: "bm25 st = Some bm" and
    init: "BM25Okapi_init (map (\<lambda>doc. split (lower (content doc))) docs) = Inr bm"
    by blast
  from BM25Okapi_init_tokens [OF init]
  have toks: "doc_tokens bm = map (\<lambda>doc. split (lower (content doc))) docs" by simp
  let ?q = "split (lower query)"
  let ?sc = "get_scores bm ?q"
  let ?idxs = "py_take top_k (rev (np_argsort m ?sc))"
  let ?sel = "map (\<lambda>i. (docs ! i, ?sc ! i)) (filter (\<lambda>i. ?sc ! i > 0) ?idxs)"
  have len: "length ?sc = length docs" by (simp add: get_scores_def toks)
  have rng: "\<forall>i\<in>set ?idxs. i < length docs \<and> i < length ?sc"
    using set_py_take [of top_k "rev (np_argsort m ?sc)"] argsort_ok_set [OF assms(2), of ?sc] len
    by auto
  from pick_positive_Inr [OF rng]
  have res: "sparse_search m st query top_k = Inr (py_take top_k ?sel)"
    using bm docs by (simp add: sparse_search_def Let_def)
  have each: "d \<in> set docs
         \<and> s = doc_score bm ?q (split (lower (content d)))
         \<and> 0 < s
         \<and> set (split (lower (content d))) \<inter> set ?q \<noteq> {}"
    if mem: "(d, s) \<in> set (py_take top_k ?sel)" for d s
  proof -
    from mem set_py_take [of top_k ?sel] have "(d, s) \<in> set ?sel" by blast
    then obtain i where i: "i \<in> set ?idxs" "?sc ! i > 0" "d = docs ! i" "s = ?sc ! i"
      by auto
    from i(1) rng have il: "i < length docs" by blast
    then have sc: "?sc ! i = doc_score bm ?q (split (lower (content (docs ! i))))"
      by (simp add: get_scores_def toks)
    have "set (split (lower (content (docs ! i)))) \<inter> set ?q \<noteq> {}"
      using doc_score_no_overlap [of "split (lower (content (docs ! i)))" ?q bm] sc i(2)
      by auto
    with i il sc show ?thesis by simp
  qed
  have bound: "0 \<le> top_k \<longrightarrow> int (length (py_take top_k ?sel)) \<le> top_k"
    by (simp add: length_py_take)
  from res bm each bound show ?thesis by blast
qed

lemma split_corpus3:
  "split (lower ''Risk'') = [''risk'']" "split (lower ''bond yield'') = [''bond'', ''yield'']"
  "split (lower ''stock'') = [''stock'']" "split (lower ''risk'') = [''risk'']"
  by code_simp+

lemma index_corpus3:
  "snd (index_documents stub_models corpus3 engine_init) = None"
  by (simp add: index_documents_def Let_def BM25Okapi_init_def corpus3_def mk_doc_def split_corpus3)

lemma sparse_corpus3: "sparse_search stub_models (fst (index_documents stub_models corpus3 engine_init)) ''risk'' 2
   = Inr [(mk_doc ''d1'' ''Risk'', (ln (5 / 2) - ln (3 / 2)) * (80 / 71))]"
  by (simp add: index_documents_def Let_def BM25Okapi_init_def corpus3_def mk_doc_def split_corpus3
     sparse_search_def get_scores_def doc_score_def term_score_def calc_idf_def idf_raw_def doc_count_def
     dict_get_def bm25_k1_def bm25_b_def bm25_epsilon_def stub_models_def stable_argsort_def py_take_def)

theorem sparse_search_positive_witness:
  "index_documents stub_models corpus3 engine_init
     = (fst (index_documents stub_models corpus3 engine_init), None)
   \<and> argsort_ok (np_argsort stub_models)
   \<and> (\<exists>res bm. sparse_search stub_models (fst (index_documents stub_models corpus3 engine_init))
                  ''risk'' 2 = Inr res
        \<and> bm25 (fst (index_documents stub_models corpus3 engine_init)) = Some bm
        \<and> (\<forall>(d, s) \<in> set res.
              d \<in> set corpus3
            \<and> s = doc_score bm (split (lower ''risk'')) (split (lower (content d)))
            \<and> 0 < s
            \<and> set (split (lower (content d))) \<inter> set (split (lower ''risk'')) \<noteq> {})
        \<and> ((0::int) \<le> 2 \<longrightarrow> int (length res) \<le> 2))
   \<and> sparse_search stub_models (fst (index_documents stub_models corpus3 engine_init)) ''risk'' 2
       = Inr [(mk_doc ''d1'' ''Risk'', (ln (5 / 2) - ln (3 / 2)) * (80 / 71))]"
proof -
  let ?r = "index_documents stub_models corpus3 engine_init"
  have ix: "?r = (fst ?r, None)" using index_corpus3 by (metis prod.collapse)
  have ok: "argsort_ok (np_argsort stub_models)"
    by (simp add: stub_models_def argsort_ok_stable)
  from sparse_search_positive [OF ix ok, of "''risk''" 2] ix ok sparse_corpus3
  show ?thesis by blast
qed

section \<open>Dense search\<close>





lemma sorted_wrt_py_take: "sorted_wrt R xs \<Longrightarrow> sorted_wrt R (py_take k xs)"
  by (simp add: py_take_def sorted_wrt_take)

lemma index_corpus_ab: "snd (index_documents stub_models corpus_ab engine_init) = None"
proof -
  have "split (lower ''alpha'') = [''alpha'']" by code_simp
  then show ?thesis
    by (simp add: index_documents_def Let_def BM25Okapi_init_def corpus_ab_def mk_doc_def)
qed




section \<open>Reciprocal rank fusion\<close>

lemma set_first_seen: "set (first_seen xs) = set xs"
  by (induction xs) auto

lemma distinct_first_seen: "distinct (first_seen xs)"
  by (induction xs) (auto simp: set_first_seen)

lemma first_seen_append:
  "first_seen (xs @ ys) = first_seen xs @ filter (\<lambda>y. y \<notin> set xs) (first_seen ys)"
proof (induction xs)
  case Nil
  show ?case by simp
next
  case (Cons x xs)
  have "filter (\<lambda>y. y \<noteq> x) (filter (\<lambda>y. y \<notin> set xs) (first_seen ys))
      = filter (\<lambda>y. y \<notin> set (x # xs)) (first_seen ys)"
    by (auto intro: filter_cong)
  with Cons show ?case by simp
qed

lemma add_ranks_defined:
  "\<forall>n<length results. k + r + int n \<noteq> 0 \<Longrightarrow> \<exists>ds'. add_ranks k r results ds = Inr ds'"
proof (induction results arbitrary: r ds)
  case Nil
  show ?case by simp
next
  case (Cons x rest)
  obtain d s where x: "x = (d, s)" by (cases x)
  from Cons.prems have z: "k + r \<noteq> 0" by fastforce
  have "\<forall>n<length rest. k + (r + 1) + int n \<noteq> 0"
  proof (intro allI impI)
    fix n assume "n < length rest"
    then have "Suc n < length (x # rest)" by simp
    with Cons.prems have "k + r + int (Suc n) \<noteq> 0" by blast
    then show "k + (r + 1) + int n \<noteq> 0" by simp
  qed
  from Cons.IH [OF this] x z show ?case by simp
qed

lemma add_ranks_keys:
  "add_ranks k r results ds = Inr ds' \<Longrightarrow>
   map fst ds' = map fst ds @
     filter (\<lambda>i. i \<notin> set (map fst ds)) (first_seen (map (\<lambda>x. doc_id (fst x)) results))"
proof (induction results arbitrary: r ds)
  case Nil
  then show ?case by simp
next
  case (Cons x rest)
  obtain d s where x: "x = (d, s)" by (cases x)
  let ?ds1 = "AList.update (doc_id d) (dict_get ds (doc_id d) 0 + 1 / real_of_int (k + r)) ds"
  let ?fs = "first_seen (map (\<lambda>x. doc_id (fst x)) rest)"
  from Cons.prems x have "add_ranks k (r + 1) rest ?ds1 = Inr ds'" by (simp split: if_splits)
  from Cons.IH [OF this]
  have ih: "map fst ds' = map fst ?ds1 @ filter (\<lambda>i. i \<notin> set (map fst ?ds1)) ?fs" .
  show ?case
  proof (cases "doc_id d \<in> set (map fst ds)")
    case True
    then have "filter (\<lambda>i. i \<notin> set (map fst ds)) ?fs
        = filter (\<lambda>i. i \<notin> set (map fst ds)) (filter (\<lambda>y. y \<noteq> doc_id d) ?fs)"
      by (auto intro: filter_cong)
    with ih True x show ?thesis by (simp add: update_keys)
  next
    case False
    have "filter (\<lambda>i. i \<notin> set (map fst ds @ [doc_id d])) ?fs
        = filter (\<lambda>i. i \<notin> set (map fst ds)) (filter (\<lambda>y. y \<noteq> doc_id d) ?fs)"
      by (auto intro: filter_cong)
    with ih False x show ?thesis by (simp add: update_keys)
  qed
qed

lemma sum_list_upt_shift:
  "(\<Sum>n\<leftarrow>[0..<Suc m]. g n) = g 0 + (\<Sum>n\<leftarrow>[0..<m]. (g (Suc n) :: real))"
proof -
  have "[0..<Suc m] = 0 # map Suc [0..<m]" by (simp add: upt_conv_Cons map_Suc_upt del: upt_Suc)
  then have "map g [0..<Suc m] = g 0 # map (\<lambda>n. g (Suc n)) [0..<m]" by (simp add: o_def)
  then show ?thesis by simp
qed

lemma add_ranks_scores:
  "add_ranks k r results ds = Inr ds' \<Longrightarrow>
   dict_get ds' i 0 = dict_get ds i 0 +
     (\<Sum>n\<leftarrow>[0..<length results].
        if doc_id (fst (results ! n)) = i then 1 / real_of_int (k + r + int n) else 0)"
proof (induction results arbitrary: r ds)
  case Nil
  then show ?case by simp
next
  case (Cons x rest)
  obtain d s where x: "x = (d, s)" by (cases x)
  let ?ds1 = "AList.update (doc_id d) (dict_get ds (doc_id d) 0 + 1 / real_of_int (k + r)) ds"
  from Cons.prems x have "add_ranks k (r + 1) rest ?ds1 = Inr ds'" by (simp split: if_splits)
  from Cons.IH [OF this]
  have ih: "dict_get ds' i 0 = dict_get ?ds1 i 0 +
     (\<Sum>n\<leftarrow>[0..<length rest].
        if doc_id (fst (rest ! n)) = i then 1 / real_of_int (k + (r + 1) + int n) else 0)" .
  have g: "(\<lambda>n. if doc_id (fst (rest ! n)) = i then 1 / real_of_int (k + (r + 1) + int n) else 0)
      = (\<lambda>n. if doc_id (fst ((x # rest) ! Suc n)) = i
              then 1 / real_of_int (k + r + int (Suc n)) else 0)"
    by (auto simp: fun_eq_iff algebra_simps)
  have u: "dict_get ?ds1 i 0
      = (if i = doc_id d then dict_get ds i 0 + 1 / real_of_int (k + r) else dict_get ds i 0)"
    by (simp add: dict_get_def update_conv')
  have "length (x # rest) = Suc (length rest)" by simp
  then show ?case
    unfolding ih g u by (simp only: sum_list_upt_shift) (simp add: x)
qed

lemma all_docs_Some:
  "map_of (fold (\<lambda>(d, _). AList.update (doc_id d) d) xs acc) i = Some r \<Longrightarrow>
   (r \<in> fst ` set xs \<and> doc_id r = i) \<or> map_of acc i = Some r"
proof (induction xs arbitrary: acc)
  case Nil
  then show ?case by simp
next
  case (Cons x xs)
  obtain d s where x: "x = (d, s)" by (cases x)
  from Cons.prems x
  have "map_of (fold (\<lambda>(d, _). AList.update (doc_id d) d) xs (AList.update (doc_id d) d acc)) i
      = Some r" by simp
  from Cons.IH [OF this] x show ?case by (auto simp: update_conv' split: if_splits)
qed

lemma all_docs_defined:
  "i \<in> (\<lambda>x. doc_id (fst x)) ` set xs \<or> map_of acc i \<noteq> None \<Longrightarrow>
   map_of (fold (\<lambda>(d, _). AList.update (doc_id d) d) xs acc) i \<noteq> None"
proof (induction xs arbitrary: acc)
  case Nil
  then show ?case by simp
next
  case (Cons x xs)
  obtain d s where x: "x = (d, s)" by (cases x)
  from Cons.prems x
  have "i \<in> (\<lambda>x. doc_id (fst x)) ` set xs \<or> map_of (AList.update (doc_id d) d acc) i \<noteq> None"
    by (auto simp: update_conv')
  from Cons.IH [OF this] x show ?case by simp
qed

lemma lookup_docs_Inr:
  "\<forall>x\<in>set xs. map_of all_docs (fst x) \<noteq> None \<Longrightarrow>
   lookup_docs all_docs xs = Inr (map (\<lambda>x. (the (map_of all_docs (fst x)), snd x)) xs)"
proof (induction xs)
  case Nil
  show ?case by simp
next
  case (Cons x xs)
  obtain i s where x: "x = (i, s)" by (cases x)
  from Cons x show ?case by auto
qed

lemma sorted_reverse_desc: "sorted_wrt (\<lambda>x y. f x \<ge> f y) (sorted_reverse f xs)"
proof -
  have "sorted (map (\<lambda>x. - f x) (sort_key (\<lambda>x. - f x) xs))" by (rule sorted_sort_key)
  then show ?thesis by (simp add: sorted_reverse_def sorted_map)
qed

lemma sorted_reverse_ties:
  "filter (\<lambda>x. f x = s) (sorted_reverse f xs) = filter (\<lambda>x. f x = s) xs"
  using sort_key_stable [of "\<lambda>x. - f x" "- s" xs] by (simp add: sorted_reverse_def)

lemma set_sorted_reverse: "set (sorted_reverse f xs) = set xs"
  by (simp add: sorted_reverse_def)

lemma mset_sorted_reverse: "mset (sorted_reverse f xs) = mset xs"
  by (simp add: sorted_reverse_def)

text \<open>
  C1. Whenever no division by zero occurs (in particular for every \<open>k \<ge> 0\<close>),
  \<open>reciprocal_rank_fusion\<close> returns one entry for each document id of the two lists; the
  score of an entry is the sum, over both lists, of \<open>1 / (k + rank)\<close> at the 1-based
  positions of its id; the output is sorted descending by that score, and entries with
  the same score are in the order in which their ids first occur in the dense list
  followed by the sparse list.
\<close>

theorem reciprocal_rank_fusion_scores:
  assumes "\<forall>n<max (length dense_results) (length sparse_results). k + 1 + int n \<noteq> 0"
  shows "\<exists>res. reciprocal_rank_fusion dense_results sparse_results k = Inr res
     \<and> distinct (map (\<lambda>x. doc_id (fst x)) res)
     \<and> set (map (\<lambda>x. doc_id (fst x)) res)
         = (\<lambda>x. doc_id (fst x)) ` set (dense_results @ sparse_results)
     \<and> (\<forall>x\<in>set res. fst x \<in> fst ` set (dense_results @ sparse_results)
          \<and> snd x = fused_score k dense_results sparse_results (doc_id (fst x)))
     \<and> sorted_wrt (\<lambda>x y. snd x \<ge> snd y) res
     \<and> (\<forall>s. map (\<lambda>x. doc_id (fst x)) (filter (\<lambda>x. snd x = s) res)
            = filter (\<lambda>i. fused_score k dense_results sparse_results i = s)
                (first_seen (map (\<lambda>x. doc_id (fst x)) (dense_results @ sparse_results))))"
proof -
  let ?ids = "map (\<lambda>x. doc_id (fst x)) (dense_results @ sparse_results)"
  let ?fused = "fused_score k dense_results sparse_results"
  from assms have "\<forall>n<length dense_results. k + 1 + int n \<noteq> 0" by simp
  from add_ranks_defined [OF this]
  obtain ds1 where ds1: "add_ranks k 1 dense_results [] = Inr ds1" by blast
  from assms have "\<forall>n<length sparse_results. k + 1 + int n \<noteq> 0" by simp
  from add_ranks_defined [OF this]
  obtain ds2 where ds2: "add_ranks k 1 sparse_results ds1 = Inr ds2" by blast
  let ?all = "fold (\<lambda>(d, _). AList.update (doc_id d) d) (dense_results @ sparse_results) []"
  let ?S = "sorted_reverse snd ds2"
  let ?h = "\<lambda>x. (the (map_of ?all (fst x)), snd x)"
  have keys1: "map fst ds1 = first_seen (map (\<lambda>x. doc_id (fst x)) dense_results)"
    using add_ranks_keys [OF ds1] by simp
  have keys: "map fst ds2 = first_seen ?ids"
    using add_ranks_keys [OF ds2] keys1 by (simp add: first_seen_append set_first_seen)
  have dk: "distinct (map fst ds2)" by (simp add: keys distinct_first_seen)
  have sc: "dict_get ds2 i 0 = ?fused i" for i
    using add_ranks_scores [OF ds1, of i] add_ranks_scores [OF ds2, of i]
    by (simp add: fused_score_def rank_contrib_def dict_get_def)
  have val: "snd x = ?fused (fst x)" if "x \<in> set ds2" for x
  proof -
    from that dk have "map_of ds2 (fst x) = Some (snd x)" by simp
    with sc [of "fst x"] show ?thesis by (simp add: dict_get_def)
  qed
  have ds2_eq: "ds2 = map (\<lambda>i. (i, ?fused i)) (first_seen ?ids)"
  proof -
    have "map (\<lambda>x. (fst x, ?fused (fst x))) ds2 = ds2"
      by (rule map_idI) (use val in \<open>auto simp: prod_eq_iff\<close>)
    then have "ds2 = map (\<lambda>i. (i, ?fused i)) (map fst ds2)" by (simp add: o_def)
    then show ?thesis by (simp only: keys)
  qed
  have setS: "set ?S = set ds2" by (rule set_sorted_reverse)
  have mem: "fst x \<in> set ?ids" if "x \<in> set ds2" for x
  proof -
    from that have "fst x \<in> set (map fst ds2)" by simp
    then show ?thesis by (simp only: keys set_first_seen)
  qed
  have def: "map_of ?all (fst x) \<noteq> None" if "x \<in> set ds2" for x
    using mem [OF that] by (intro all_docs_defined) (simp add: image_Un)
  have hx: "fst (?h x) \<in> fst ` set (dense_results @ sparse_results) \<and> doc_id (fst (?h x)) = fst x"
    if "x \<in> set ds2" for x
  proof -
    from def [OF that] obtain r where r: "map_of ?all (fst x) = Some r" by blast
    from all_docs_Some [OF r] r show ?thesis by simp
  qed
  let ?res = "map ?h ?S"
  have r: "reciprocal_rank_fusion dense_results sparse_results k = Inr ?res"
    using ds1 ds2 lookup_docs_Inr [of ?S ?all] def setS
    by (simp add: reciprocal_rank_fusion_def Let_def)
  have idmap: "map (\<lambda>x. doc_id (fst x)) (map ?h xs) = map fst xs" if "set xs \<subseteq> set ds2" for xs
    using that hx by (auto simp: o_def intro!: map_cong)
  have ids_res: "map (\<lambda>x. doc_id (fst x)) ?res = map fst ?S"
    by (rule idmap) (simp add: setS)
  have "mset (map fst ?S) = mset (map fst ds2)"
    using mset_sorted_reverse [of snd ds2] by (metis mset_map)
  then have dS: "distinct (map fst ?S)" and sS: "set (map fst ?S) = set (map fst ds2)"
    using dk mset_eq_imp_distinct_iff mset_eq_setD by blast+
  have c1: "distinct (map (\<lambda>x. doc_id (fst x)) ?res)" using dS by (simp only: ids_res)
  have c2: "set (map (\<lambda>x. doc_id (fst x)) ?res)
      = (\<lambda>x. doc_id (fst x)) ` set (dense_results @ sparse_results)"
    unfolding ids_res sS keys set_first_seen by (simp add: image_Un)
  have c3: "\<forall>x\<in>set ?res. fst x \<in> fst ` set (dense_results @ sparse_results)
          \<and> snd x = ?fused (doc_id (fst x))"
  proof
    fix y assume "y \<in> set ?res"
    then obtain x where x: "x \<in> set ?S" and y: "y = ?h x" by auto
    from x setS have x2: "x \<in> set ds2" by simp
    from hx [OF x2] val [OF x2] y
    show "fst y \<in> fst ` set (dense_results @ sparse_results) \<and> snd y = ?fused (doc_id (fst y))"
      by simp
  qed
  have "sorted_wrt (\<lambda>x y. snd x \<ge> snd y) ?S" by (rule sorted_reverse_desc)
  then have c4: "sorted_wrt (\<lambda>x y. snd x \<ge> snd y) ?res" by (simp add: sorted_wrt_map)
  have c5: "map (\<lambda>x. doc_id (fst x)) (filter (\<lambda>x. snd x = s) ?res)
            = filter (\<lambda>i. ?fused i = s) (first_seen ?ids)" for s
  proof -
    have "filter (\<lambda>x. snd x = s) ?res = map ?h (filter (\<lambda>x. snd x = s) ?S)"
      by (simp add: filter_map o_def)
    also have "filter (\<lambda>x. snd x = s) ?S = filter (\<lambda>x. snd x = s) ds2"
      by (rule sorted_reverse_ties)
    finally have "map (\<lambda>x. doc_id (fst x)) (filter (\<lambda>x. snd x = s) ?res)
        = map fst (filter (\<lambda>x. snd x = s) ds2)"
      using idmap [of "filter (\<lambda>x. snd x = s) ds2"] by simp
    also have "\<dots> = filter (\<lambda>i. ?fused i = s) (first_seen ?ids)"
      by (subst ds2_eq) (simp add: filter_map o_def)
    finally show ?thesis .
  qed
  from r c1 c2 c3 c4 c5 show ?thesis by blast
qed

lemma rrf_example:
  "reciprocal_rank_fusion [(doc_A, 9), (doc_B, 8), (doc_C, 7)] [(doc_B, 3), (doc_A, 2), (doc_D, 1)] 60
     = Inr [(doc_A, 1 / 61 + 1 / 62), (doc_B, 1 / 61 + 1 / 62), (doc_C, 1 / 63), (doc_D, 1 / 63)]"
  by (simp add: reciprocal_rank_fusion_def dict_get_def sorted_reverse_def
      doc_A_def doc_B_def doc_C_def doc_D_def mk_doc_def)

theorem reciprocal_rank_fusion_scores_witness:
  "(0::int) \<le> 60
   \<and> (\<exists>res. reciprocal_rank_fusion [(doc_A, 9), (doc_B, 8), (doc_C, 7)]
               [(doc_B, 3), (doc_A, 2), (doc_D, 1)] 60 = Inr res
        \<and> res = [(doc_A, 1 / 61 + 1 / 62), (doc_B, 1 / 61 + 1 / 62), (doc_C, 1 / 63), (doc_D, 1 / 63)]
        \<and> (\<forall>x\<in>set res. snd x = fused_score 60 [(doc_A, 9), (doc_B, 8), (doc_C, 7)]
                                   [(doc_B, 3), (doc_A, 2), (doc_D, 1)] (doc_id (fst x)))
        \<and> sorted_wrt (\<lambda>x y. snd x \<ge> snd y) res)"
proof -
  have nz: "\<forall>n<max (length [(doc_A, 9::real), (doc_B, 8), (doc_C, 7)])
              (length [(doc_B, 3::real), (doc_A, 2), (doc_D, 1)]). (60::int) + 1 + int n \<noteq> 0"
    by simp
  from reciprocal_rank_fusion_scores [OF nz] rrf_example show ?thesis by auto
qed

section \<open>Reranking\<close>

lemma reranked_eq:
  "map (\<lambda>((doc, _), s). (doc, s))
     (zip candidates (map (\<lambda>(q, c). predict m q c) (map (\<lambda>(doc, _). (query, content doc)) candidates)))
   = map (\<lambda>x. (fst x, predict m query (content (fst x)))) candidates"
  by (induction candidates) auto

lemma rerank_eq:
  "rerank m query candidates top_k
     = py_take top_k (sorted_reverse snd
         (map (\<lambda>d. (d, predict m query (content d))) (map fst candidates)))"
  by (simp only: rerank_def Let_def reranked_eq) (simp add: o_def)

lemma sorted_reverse_cong:
  assumes "mset ys = mset xs"
    and "\<And>s. filter (\<lambda>x. f x = s) ys = filter (\<lambda>x. f x = s) xs"
  shows "sorted_reverse f ys = sorted_reverse f xs"
proof -
  let ?g = "\<lambda>x. - f x"
  have "sort_key ?g xs = sort_key ?g ys"
  proof (rule properties_for_sort_key)
    show "mset (sort_key ?g ys) = mset xs" using assms(1) by simp
    show "sorted (map ?g (sort_key ?g ys))" by (rule sorted_sort_key)
    fix k
    have "filter (\<lambda>x. ?g x = ?g k) (sort_key ?g ys) = filter (\<lambda>x. ?g x = ?g k) ys"
      by (rule sort_key_stable)
    also have "\<dots> = filter (\<lambda>x. ?g x = ?g k) xs" using assms(2) [of "f k"] by simp
    finally show "filter (\<lambda>x. ?g k = ?g x) (sort_key ?g ys) = filter (\<lambda>x. ?g k = ?g x) xs"
      by (simp add: eq_commute)
  qed
  then show ?thesis by (simp add: sorted_reverse_def)
qed

text \<open>
  C3. \<open>rerank\<close> gives every candidate the cross-encoder score of (query, content), ranks
  the candidates by that score in descending order, candidates of equal score staying in
  their incoming order, and returns the slice \<open>[:top_k]\<close> of the ranking, which for
  \<open>top_k \<ge> 0\<close> is its first \<open>top_k\<close> entries. The incoming scores have no influence, and
  the incoming order has none beyond the order of candidates with equal new scores.
\<close>

theorem rerank_sorted:
  "\<exists>ranking.
     mset ranking = mset (map (\<lambda>x. (fst x, predict m query (content (fst x)))) candidates)
   \<and> sorted_wrt (\<lambda>x y. snd x \<ge> snd y) ranking
   \<and> (\<forall>s. filter (\<lambda>x. snd x = s) ranking
          = filter (\<lambda>x. snd x = s) (map (\<lambda>x. (fst x, predict m query (content (fst x)))) candidates))
   \<and> rerank m query candidates top_k = py_take top_k ranking
   \<and> (0 \<le> top_k \<longrightarrow> rerank m query candidates top_k = take (nat top_k) ranking)
   \<and> sorted_wrt (\<lambda>x y. snd x \<ge> snd y) (rerank m query candidates top_k)
   \<and> (\<forall>cs. map fst cs = map fst candidates \<longrightarrow>
          rerank m query cs top_k = rerank m query candidates top_k)
   \<and> (\<forall>cs. mset (map fst cs) = mset (map fst candidates)
          \<and> (\<forall>s. filter (\<lambda>d. predict m query (content d) = s) (map fst cs)
                 = filter (\<lambda>d. predict m query (content d) = s) (map fst candidates))
        \<longrightarrow> rerank m query cs top_k = rerank m query candidates top_k)"
proof -
  let ?g = "\<lambda>d. (d, predict m query (content d))"
  let ?sc = "map (\<lambda>x. (fst x, predict m query (content (fst x)))) candidates"
  let ?R = "sorted_reverse snd ?sc"
  have sc: "?sc = map ?g (map fst candidates)" by (simp add: o_def)
  have r: "rerank m query candidates top_k = py_take top_k ?R"
    by (simp add: rerank_eq o_def)
  have c1: "mset ?R = mset ?sc" by (rule mset_sorted_reverse)
  have c2: "sorted_wrt (\<lambda>x y. snd x \<ge> snd y) ?R" by (rule sorted_reverse_desc)
  have c3: "\<forall>s. filter (\<lambda>x. snd x = s) ?R = filter (\<lambda>x. snd x = s) ?sc"
    by (simp add: sorted_reverse_ties)
  have c5: "0 \<le> top_k \<longrightarrow> rerank m query candidates top_k = take (nat top_k) ?R"
    by (simp add: r py_take_def)
  have c6: "sorted_wrt (\<lambda>x y. snd x \<ge> snd y) (rerank m query candidates top_k)"
    unfolding r using c2 by (rule sorted_wrt_py_take)
  have c7: "rerank m query cs top_k = rerank m query candidates top_k"
    if "map fst cs = map fst candidates" for cs
    using that by (simp add: rerank_eq)
  have c8: "rerank m query cs top_k = rerank m query candidates top_k"
    if ms: "mset (map fst cs) = mset (map fst candidates)"
      and ties: "\<forall>s. filter (\<lambda>d. predict m query (content d) = s) (map fst cs)
                 = filter (\<lambda>d. predict m query (content d) = s) (map fst candidates)" for cs
  proof -
    have "sorted_reverse snd (map ?g (map fst cs)) = sorted_reverse snd (map ?g (map fst candidates))"
    proof (rule sorted_reverse_cong)
      from ms show "mset (map ?g (map fst cs)) = mset (map ?g (map fst candidates))"
        by (metis mset_map)
      fix s
      have fm: "filter (\<lambda>x. snd x = s) (map ?g ds)
          = map ?g (filter (\<lambda>d. predict m query (content d) = s) ds)" for ds
        by (simp add: filter_map o_def)
      from ties have "filter (\<lambda>d. predict m query (content d) = s) (map fst cs)
          = filter (\<lambda>d. predict m query (content d) = s) (map fst candidates)" by blast
      then show "filter (\<lambda>x. snd x = s) (map ?g (map fst cs))
          = filter (\<lambda>x. snd x = s) (map ?g (map fst candidates))" by (simp only: fm)
    qed
    then show ?thesis by (simp add: rerank_eq)
  qed
  from c1 c2 c3 r c5 c6 c7 c8 show ?thesis by blast
qed

lemma rerank_example:
  "rerank stub_models ''q'' [(doc_B, 9 / 10), (doc_A, 1 / 2), (doc_C, 1 / 10)] 2
     = [(doc_A, 5), (doc_C, 5)]"
  by (simp add: rerank_def sorted_reverse_def py_take_def stub_models_def
      doc_A_def doc_B_def doc_C_def mk_doc_def)

theorem rerank_sorted_witness:
  "rerank stub_models ''q'' [(doc_B, 9 / 10), (doc_A, 1 / 2), (doc_C, 1 / 10)] 2
     = [(doc_A, 5), (doc_C, 5)]
   \<and> (0::int) \<le> 2
   \<and> rerank stub_models ''q'' [(doc_B, 9 / 10), (doc_A, 1 / 2), (doc_C, 1 / 10)] 2
       = take (nat 2) (sorted_reverse snd
           (map (\<lambda>x. (fst x, predict stub_models ''q'' (content (fst x))))
              [(doc_B, 9 / 10), (doc_A, 1 / 2), (doc_C, 1 / 10)]))
   \<and> map fst [(doc_B, 0::real), (doc_A, 0), (doc_C, 0)]
       = map fst [(doc_B, 9 / 10 :: real), (doc_A, 1 / 2), (doc_C, 1 / 10)]
   \<and> rerank stub_models ''q'' [(doc_B, 0), (doc_A, 0), (doc_C, 0)] 2
       = rerank stub_models ''q'' [(doc_B, 9 / 10), (doc_A, 1 / 2), (doc_C, 1 / 10)] 2
   \<and> mset (map fst [(doc_A, 0::real), (doc_C, 0), (doc_B, 0)])
       = mset (map fst [(doc_B, 9 / 10 :: real), (doc_A, 1 / 2), (doc_C, 1 / 10)])
   \<and> (\<forall>s. filter (\<lambda>d. predict stub_models ''q'' (content d) = s)
              (map fst [(doc_A, 0::real), (doc_C, 0), (doc_B, 0)])
          = filter (\<lambda>d. predict stub_models ''q'' (content d) = s)
              (map fst [(doc_B, 9 / 10 :: real), (doc_A, 1 / 2), (doc_C, 1 / 10)]))
   \<and> rerank stub_models ''q'' [(doc_A, 0), (doc_C, 0), (doc_B, 0)] 2
       = rerank stub_models ''q'' [(doc_B, 9 / 10), (doc_A, 1 / 2), (doc_C, 1 / 10)] 2"
proof -
  let ?c = "[(doc_B, 9 / 10 :: real), (doc_A, 1 / 2), (doc_C, 1 / 10)]"
  have h1: "map fst [(doc_B, 0::real), (doc_A, 0), (doc_C, 0)] = map fst ?c" by simp
  have h2: "mset (map fst [(doc_A, 0::real), (doc_C, 0), (doc_B, 0)]) = mset (map fst ?c)"
    by simp
  have h3: "\<forall>s. filter (\<lambda>d. predict stub_models ''q'' (content d) = s)
              (map fst [(doc_A, 0::real), (doc_C, 0), (doc_B, 0)])
          = filter (\<lambda>d. predict stub_models ''q'' (content d) = s) (map fst ?c)"
    by (auto simp: stub_models_def doc_A_def doc_B_def doc_C_def mk_doc_def)
  from rerank_sorted [of stub_models "''q''" ?c 2]
  obtain ranking where
    k: "0 \<le> (2::int) \<longrightarrow> rerank stub_models ''q'' ?c 2 = take (nat 2) ranking"
    and a: "\<forall>cs. map fst cs = map fst ?c \<longrightarrow>
          rerank stub_models ''q'' cs 2 = rerank stub_models ''q'' ?c 2"
    and b: "\<forall>cs. mset (map fst cs) = mset (map fst ?c)
          \<and> (\<forall>s. filter (\<lambda>d. predict stub_models ''q'' (content d) = s) (map fst cs)
                 = filter (\<lambda>d. predict stub_models ''q'' (content d) = s) (map fst ?c))
        \<longrightarrow> rerank stub_models ''q'' cs 2 = rerank stub_models ''q'' ?c 2"
    by blast
  have "rerank stub_models ''q'' ?c 2
      = take (nat 2) (sorted_reverse snd
           (map (\<lambda>x. (fst x, predict stub_models ''q'' (content (fst x)))) ?c))"
    by (simp add: rerank_eq o_def py_take_def)
  moreover from a h1 have "rerank stub_models ''q'' [(doc_B, 0), (doc_A, 0), (doc_C, 0)] 2
       = rerank stub_models ''q'' ?c 2" by blast
  moreover from b h2 h3 have "rerank stub_models ''q'' [(doc_A, 0), (doc_C, 0), (doc_B, 0)] 2
       = rerank stub_models ''q'' ?c 2" by blast
  ultimately show ?thesis using rerank_example h1 h2 h3 by simp
qed

section \<open>The score field of a document\<close>

lemma dense_search_docs:
  assumes "index_documents m docs st0 = (st, None)" and "argsort_ok (np_argsort m)"
  shows "\<exists>res. dense_search m st query top_k = Inr res \<and> fst ` set res \<subseteq> set docs"
proof -
  from index_documents_state [OF assms(1)] have
    docs: "documents st = docs" and
    embs: "embeddings st = Some (map (encode m) (map content docs))"
    by blast+
  let ?sims = "map (\<lambda>e. cosine e (encode m query)) (map (encode m) (map content docs))"
  let ?idxs = "py_take top_k (rev (np_argsort m ?sims))"
  have rng: "\<forall>i\<in>set ?idxs. i < length docs \<and> i < length ?sims"
    using set_py_take [of top_k "rev (np_argsort m ?sims)"] argsort_ok_set [OF assms(2), of ?sims]
    by auto
  from pick_Inr [OF rng]
  have "dense_search m st query top_k = Inr (map (\<lambda>i. (docs ! i, ?sims ! i)) ?idxs)"
    using embs docs by (simp add: dense_search_def Let_def)
  moreover have "fst ` set (map (\<lambda>i. (docs ! i, ?sims ! i)) ?idxs) \<subseteq> set docs"
    using rng by auto
  ultimately show ?thesis by blast
qed

lemma sparse_search_docs:
  assumes "index_documents m docs st0 = (st, None)" and "argsort_ok (np_argsort m)"
  shows "\<exists>res. sparse_search m st query top_k = Inr res \<and> fst ` set res \<subseteq> set docs"
proof -
  from index_documents_state [OF assms(1)] obtain bm where
    docs: "documents st = docs" and bm: "bm25 st = Some bm" and
    init: "BM25Okapi_init (map (\<lambda>doc. split (lower (content doc))) docs) = Inr bm"
    by blast
  let ?scores = "get_scores bm (split (lower query))"
  let ?idxs = "py_take top_k (rev (np_argsort m ?scores))"
  from BM25Okapi_init_tokens [OF init] have len: "length ?scores = length docs"
    by (simp add: length_get_scores)
  have rng: "\<forall>i\<in>set ?idxs. i < length docs \<and> i < length ?scores"
    using set_py_take [of top_k "rev (np_argsort m ?scores)"]
      argsort_ok_set [OF assms(2), of ?scores] len by auto
  let ?picked = "map (\<lambda>i. (docs ! i, ?scores ! i)) (filter (\<lambda>i. ?scores ! i > 0) ?idxs)"
  from pick_positive_Inr [OF rng]
  have "sparse_search m st query top_k = Inr (py_take top_k ?picked)"
    using bm docs by (simp add: sparse_search_def Let_def)
  moreover have "fst ` set ?picked \<subseteq> set docs" using rng by auto
  then have "fst ` set (py_take top_k ?picked) \<subseteq> set docs"
    using set_py_take [of top_k ?picked] by blast
  ultimately show ?thesis by blast
qed

lemma reciprocal_rank_fusion_docs:
  assumes "\<forall>n<max (length dense_results) (length sparse_results). k + 1 + int n \<noteq> 0"
  shows "\<exists>res. reciprocal_rank_fusion dense_results sparse_results k = Inr res
     \<and> fst ` set res \<subseteq> fst ` set (dense_results @ sparse_results)"
proof -
  let ?ids = "map (\<lambda>x. doc_id (fst x)) (dense_results @ sparse_results)"
  from assms have "\<forall>n<length dense_results. k + 1 + int n \<noteq> 0" by simp
  from add_ranks_defined [OF this]
  obtain ds1 where ds1: "add_ranks k 1 dense_results [] = Inr ds1" by blast
  from assms have "\<forall>n<length sparse_results. k + 1 + int n \<noteq> 0" by simp
  from add_ranks_defined [OF this]
  obtain ds2 where ds2: "add_ranks k 1 sparse_results ds1 = Inr ds2" by blast
  let ?all = "fold (\<lambda>(d, _). AList.update (doc_id d) d) (dense_results @ sparse_results) []"
  let ?S = "sorted_reverse snd ds2"
  let ?h = "\<lambda>x. (the (map_of ?all (fst x)), snd x)"
  have keys1: "map fst ds1 = first_seen (map (\<lambda>x. doc_id (fst x)) dense_results)"
    using add_ranks_keys [OF ds1] by simp
  have keys: "map fst ds2 = first_seen ?ids"
    using add_ranks_keys [OF ds2] keys1 by (simp add: first_seen_append set_first_seen)
  have setS: "set ?S = set ds2" by (rule set_sorted_reverse)
  have mem: "fst x \<in> set ?ids" if "x \<in> set ds2" for x
  proof -
    from that have "fst x \<in> set (map fst ds2)" by simp
    then show ?thesis by (simp only: keys set_first_seen)
  qed
  have def: "map_of ?all (fst x) \<noteq> None" if "x \<in> set ds2" for x
    using mem [OF that] by (intro all_docs_defined) (simp add: image_Un)
  have hx: "fst (?h x) \<in> fst ` set (dense_results @ sparse_results)" if "x \<in> set ds2" for x
  proof -
    from def [OF that] obtain r where r: "map_of ?all (fst x) = Some r" by blast
    from all_docs_Some [OF r] r show ?thesis by simp
  qed
  have "reciprocal_rank_fusion dense_results sparse_results k = Inr (map ?h ?S)"
    using ds1 ds2 lookup_docs_Inr [of ?S ?all] def setS
    by (simp add: reciprocal_rank_fusion_def Let_def)
  moreover have "fst ` set (map ?h ?S) \<subseteq> fst ` set (dense_results @ sparse_results)"
    using hx setS by auto
  ultimately show ?thesis by blast
qed

lemma rerank_docs: "fst ` set (rerank m query candidates top_k) \<subseteq> fst ` set candidates"
proof -
  let ?sc = "map (\<lambda>d. (d, predict m query (content d))) (map fst candidates)"
  have "set (rerank m query candidates top_k) \<subseteq> set (sorted_reverse snd ?sc)"
    unfolding rerank_eq by (rule set_py_take)
  then have "set (rerank m query candidates top_k) \<subseteq> set ?sc"
    by (simp only: set_sorted_reverse)
  then show ?thesis by fastforce
qed

lemma pipeline_docs:
  assumes "index_documents m docs st0 = (st, None)" and "argsort_ok (np_argsort m)"
  shows "\<exists>rr. advanced_rag_pipeline m st query top_k_dense top_k_sparse top_k_final = Inr rr
     \<and> set (rr_documents rr) \<subseteq> set docs"
proof -
  from dense_search_docs [OF assms] obtain dr where
    dr: "dense_search m st query top_k_dense = Inr dr" and drs: "fst ` set dr \<subseteq> set docs"
    by blast
  from sparse_search_docs [OF assms] obtain sr where
    sr: "sparse_search m st query top_k_sparse = Inr sr" and srs: "fst ` set sr \<subseteq> set docs"
    by blast
  have "\<forall>n<max (length dr) (length sr). (60::int) + 1 + int n \<noteq> 0" by simp
  from reciprocal_rank_fusion_docs [OF this] obtain fr where
    fr: "reciprocal_rank_fusion dr sr 60 = Inr fr" and frs: "fst ` set fr \<subseteq> fst ` set (dr @ sr)"
    by blast
  let ?rr = "rerank m query fr top_k_final"
  have "fst ` set (dr @ sr) \<subseteq> set docs" using drs srs by (simp add: image_Un)
  with frs have "fst ` set fr \<subseteq> set docs" by (rule subset_trans)
  with rerank_docs [of m query fr top_k_final] have "fst ` set ?rr \<subseteq> set docs" by blast
  then have "set (map fst ?rr) \<subseteq> set docs" by simp
  then show ?thesis using dr sr fr by (simp add: advanced_rag_pipeline_def Let_def)
qed

text \<open>
  C9, as stated, fails: no retrieval call writes the \<open>score\<close> field of a document. Here
  \<open>dense_search\<close> assigns the similarity 1 to a document, and the document it returns
  still carries the score 0 it was created with.
\<close>

theorem retrieval_score_field_counterexample:
  "dense_search stub_models (fst (index_documents stub_models corpus_ab engine_init)) ''q'' 1
     = Inr [(mk_doc ''b'' ''beta'', 1)]
   \<and> score (mk_doc ''b'' ''beta'') = 0
   \<and> map score (documents (fst (index_documents stub_models corpus_ab engine_init))) = [0, 0]"
  by (simp add: index_documents_def Let_def BM25Okapi_init_def corpus_ab_def mk_doc_def
      dense_search_def cosine_def dot_def norm2_def stub_models_def stable_argsort_def py_take_def)

text \<open>
  C9, amended. The retrieval calls only read the indexed documents: on an indexed corpus
  \<open>dense_search\<close>, \<open>sparse_search\<close> and the full pipeline return, and every document they
  return is one of the documents given to \<open>index_documents\<close>, with the content, id and
  \<open>score\<close> field it had then. The relevance scores of a call are returned beside the
  documents (as the second components of the pairs, and in the score lists of the
  pipeline result, one rerank score per returned document); the \<open>score\<close> field is never
  written.
\<close>

theorem retrieval_keeps_documents:
  assumes "index_documents m docs st0 = (st, None)" and "argsort_ok (np_argsort m)"
  shows "documents st = docs
     \<and> (\<exists>res. dense_search m st query top_k = Inr res \<and> (\<forall>x\<in>set res. fst x \<in> set docs))
     \<and> (\<exists>res. sparse_search m st query top_k = Inr res \<and> (\<forall>x\<in>set res. fst x \<in> set docs))
     \<and> (\<exists>rr. advanced_rag_pipeline m st query top_k_dense top_k_sparse top_k_final = Inr rr
           \<and> (\<forall>d\<in>set (rr_documents rr). d \<in> set docs)
           \<and> length (rerank_scores rr) = length (rr_documents rr))"
proof -
  from index_documents_state [OF assms(1)] have c0: "documents st = docs" by blast
  from dense_search_docs [OF assms, of query top_k]
  have c1: "\<exists>res. dense_search m st query top_k = Inr res \<and> (\<forall>x\<in>set res. fst x \<in> set docs)"
    by blast
  from sparse_search_docs [OF assms, of query top_k]
  have c2: "\<exists>res. sparse_search m st query top_k = Inr res \<and> (\<forall>x\<in>set res. fst x \<in> set docs)"
    by blast
  from pipeline_docs [OF assms, of query top_k_dense top_k_sparse top_k_final] obtain rr where
    rr: "advanced_rag_pipeline m st query top_k_dense top_k_sparse top_k_final = Inr rr"
    and sub: "set (rr_documents rr) \<subseteq> set docs" by blast
  from rr have "length (rerank_scores rr) = length (rr_documents rr)"
    by (auto simp: advanced_rag_pipeline_def Let_def split: sum.splits)
  with rr sub
  have c3: "\<exists>rr. advanced_rag_pipeline m st query top_k_dense top_k_sparse top_k_final = Inr rr
           \<and> (\<forall>d\<in>set (rr_documents rr). d \<in> set docs)
           \<and> length (rerank_scores rr) = length (rr_documents rr)" by blast
  from c0 c1 c2 c3 show ?thesis by blast
qed

theorem retrieval_keeps_documents_witness:
  "index_documents stub_models corpus_ab engine_init
     = (fst (index_documents stub_models corpus_ab engine_init), None)
   \<and> argsort_ok (np_argsort stub_models)
   \<and> documents (fst (index_documents stub_models corpus_ab engine_init)) = corpus_ab
   \<and> (\<exists>res. dense_search stub_models (fst (index_documents stub_models corpus_ab engine_init))
               ''q'' 1 = Inr res
          \<and> (\<forall>x\<in>set res. fst x \<in> set corpus_ab))
   \<and> (\<exists>res. sparse_search stub_models (fst (index_documents stub_models corpus_ab engine_init))
               ''q'' 1 = Inr res
          \<and> (\<forall>x\<in>set res. fst x \<in> set corpus_ab))
   \<and> (\<exists>rr. advanced_rag_pipeline stub_models
              (fst (index_documents stub_models corpus_ab engine_init)) ''q'' 100 100 5 = Inr rr
          \<and> (\<forall>d\<in>set (rr_documents rr). d \<in> set corpus_ab))"
proof -
  let ?r = "index_documents stub_models corpus_ab engine_init"
  have ix: "?r = (fst ?r, None)" using index_corpus_ab by (metis prod.collapse)
  have ok: "argsort_ok (np_argsort stub_models)"
    by (simp add: stub_models_def argsort_ok_stable)
  from retrieval_keeps_documents [OF ix ok, of "''q''" 1 100 100 5] ix ok show ?thesis by blast
qed

end
